theory Spec2Isabelle
  imports Main
begin

section \<open>PrefixingTransform.ts: the line prefixing transform\<close>

text \<open>
  \<^verbatim>\<open>createPrefixingTransform(prefix, encoding)\<close> keeps one boolean, \<^verbatim>\<open>needsPrefix\<close>
  (initially true), across the calls of its \<^verbatim>\<open>transform(chunk, _, callback)\<close>. The model
  works on the decoded text of a chunk (\<^verbatim>\<open>chunk.toString(encoding)\<close>), a \<open>string\<close>;
  the line separator is the character \<^verbatim>\<open>"\n"\<close>.
\<close>

definition newline :: char where
  "newline = CHR 0x0A"

text \<open>
  \<^verbatim>\<open>text.split("\n")\<close>: the segments between the separators. The result is never
  empty: the empty text gives one empty segment, and a text that ends with a separator
  ends with an empty segment.
\<close>

fun split_newline :: "string \<Rightarrow> string list" where
  "split_newline [] = [[]]"
| "split_newline (c # cs) =
     (if c = newline then [] # split_newline cs
      else (case split_newline cs of
              [] \<Rightarrow> [[c]]
            | seg # segs \<Rightarrow> (c # seg) # segs))"

text \<open>
  The body of \<^verbatim>\<open>for (const line of lines)\<close>, on the pair of \<^verbatim>\<open>needsPrefix\<close> and the
  chunks pushed so far:
  \<^verbatim>\<open>if (needsPrefix) { this.push(prefix); needsPrefix = false; }
  this.push(line + "\n"); needsPrefix = true;\<close>
\<close>

fun push_lines :: "string \<Rightarrow> string list \<Rightarrow> bool \<times> string list \<Rightarrow> bool \<times> string list" where
  "push_lines prefix [] st = st"
| "push_lines prefix (line # lines) (needsPrefix, pushed) =
     push_lines prefix lines
       (True, (if needsPrefix then pushed @ [prefix] else pushed) @ [line @ [newline]])"

text \<open>
  One call of \<^verbatim>\<open>transform\<close>: from \<^verbatim>\<open>needsPrefix\<close> and the decoded text to the new
  \<^verbatim>\<open>needsPrefix\<close> and the list of pushed strings. \<^verbatim>\<open>lines.pop()\<close> takes the last
  segment off; \<^verbatim>\<open>if (remaining)\<close> is true for a non-empty string.
\<close>

definition transform :: "string \<Rightarrow> bool \<Rightarrow> string \<Rightarrow> bool \<times> string list" where
  "transform prefix needsPrefix text =
     (let lines = split_newline text;
          remaining = last lines;
          (needsPrefix1, pushed1) = push_lines prefix (butlast lines) (needsPrefix, [])
      in if remaining \<noteq> []
         then (if needsPrefix1
               then (False, pushed1 @ [prefix] @ [remaining])
               else (needsPrefix1, pushed1 @ [remaining]))
         else (needsPrefix1, pushed1))"

text \<open>
  A stream of chunks through one transform: the chunks are processed in arrival order,
  the state carried from call to call; the result is the final \<^verbatim>\<open>needsPrefix\<close> and the
  bytes written to the readable side (the concatenation of everything pushed).
\<close>

fun transform_chunks :: "string \<Rightarrow> bool \<Rightarrow> string list \<Rightarrow> bool \<times> string" where
  "transform_chunks prefix needsPrefix [] = (needsPrefix, [])"
| "transform_chunks prefix needsPrefix (chunk # chunks) =
     (let (needsPrefix1, pushed) = transform prefix needsPrefix chunk;
          (needsPrefix2, rest) = transform_chunks prefix needsPrefix1 chunks
      in (needsPrefix2, concat pushed @ rest))"

text \<open>The output of a freshly created transform (\<^verbatim>\<open>let needsPrefix = true\<close>) on a list of chunks.\<close>

definition createPrefixingTransform_output :: "string \<Rightarrow> string list \<Rightarrow> string" where
  "createPrefixingTransform_output prefix chunks = snd (transform_chunks prefix True chunks)"

text \<open>
  Two descriptions of the same output, used to reason about re-chunking. \<open>frame\<close> reads
  the text character by character: a character gets the prefix in front of it exactly when
  it starts a line. \<open>cursor\<close> is the value of \<^verbatim>\<open>needsPrefix\<close> after a text.
  \<open>prefixed_lines\<close> is the output for a list of complete lines.
\<close>

fun frame :: "string \<Rightarrow> bool \<Rightarrow> string \<Rightarrow> string" where
  "frame prefix needsPrefix [] = []"
| "frame prefix needsPrefix (c # cs) =
     (if needsPrefix then prefix else []) @ c # frame prefix (c = newline) cs"

definition cursor :: "bool \<Rightarrow> string \<Rightarrow> bool" where
  "cursor needsPrefix text = (if text = [] then needsPrefix else last text = newline)"

fun prefixed_lines :: "string \<Rightarrow> bool \<Rightarrow> string list \<Rightarrow> string" where
  "prefixed_lines prefix needsPrefix [] = []"
| "prefixed_lines prefix needsPrefix (line # lines) =
     (if needsPrefix then prefix else []) @ line @ [newline] @ prefixed_lines prefix True lines"

section \<open>MultiBufferedTransform.ts: the shared buffer of several streams\<close>

text \<open>
  \<^verbatim>\<open>createMultiBufferedTransform(inputs, { end })\<close> creates one output \<^verbatim>\<open>Transform\<close> per
  input and pipes the input into it. An output transform is identified by its position in
  \<^verbatim>\<open>outputs\<close>. The state is
  \<^item> \<open>buffer\<close>: the array of \<^verbatim>\<open>[chunk, transform]\<close> pairs;
  \<^item> \<open>inputPerOutput\<close>: the \<^verbatim>\<open>Map<Transform, Readable>\<close>;
  \<^item> \<open>destroyed\<close>: for each output transform, whether \<^verbatim>\<open>destroy()\<close> was called on it;
  \<^item> \<open>emitted\<close>: the chunks that the output transforms have passed on to their readers,
    each with the transform that emitted it, in the order of the \<^verbatim>\<open>push\<close> calls.
  The type \<open>'r\<close> is the identity of a stream object, \<open>'c\<close> the type of a chunk.
\<close>

record ('r, 'c) multi_buffered =
  buffer :: "('c \<times> nat) list"
  inputPerOutput :: "nat \<rightharpoonup> 'r"
  destroyed :: "bool list"
  emitted :: "(nat \<times> 'c) list"

text \<open>
  \<^verbatim>\<open>outputs: inputs.map((input) => { ...; inputPerOutput.set(transform, input); ... })\<close>:
  output \<open>t\<close> belongs to \<^verbatim>\<open>inputs[t]\<close>; \<^verbatim>\<open>Map.get\<close> of any other object is
  \<^verbatim>\<open>undefined\<close>.
\<close>

definition createMultiBufferedTransform :: "'r list \<Rightarrow> ('r, 'c) multi_buffered" where
  "createMultiBufferedTransform inputs =
     \<lparr> buffer = [],
       inputPerOutput = (\<lambda>t. if t < length inputs then Some (inputs ! t) else None),
       destroyed = replicate (length inputs) False,
       emitted = [] \<rparr>"

text \<open>
  The \<^verbatim>\<open>write(chunk, _, callback)\<close> of output transform \<open>t\<close>, called for each chunk
  that arrives from its input: \<^verbatim>\<open>buffer.push([chunk, this])\<close>.
\<close>

definition transform_write :: "nat \<Rightarrow> 'c \<Rightarrow> ('r, 'c) multi_buffered \<Rightarrow> ('r, 'c) multi_buffered" where
  "transform_write t chunk s = s\<lparr>buffer := buffer s @ [(chunk, t)]\<rparr>"

text \<open>
  \<^verbatim>\<open>transform.push(chunk)\<close> of the stream library: a live output transform passes the
  chunk on to its readers; a destroyed one takes no more chunks.
\<close>

definition push :: "nat \<Rightarrow> 'c \<Rightarrow> ('r, 'c) multi_buffered \<Rightarrow> ('r, 'c) multi_buffered" where
  "push t chunk s =
     (if t < length (destroyed s) \<and> \<not> destroyed s ! t
      then s\<lparr>emitted := emitted s @ [(t, chunk)]\<rparr>
      else s)"

text \<open>
  The loop of \<^verbatim>\<open>flush(stream)\<close> over the pairs taken out of the buffer:
  \<^verbatim>\<open>if (stream && inputPerOutput.get(transform) !== stream) { continue; }
  transform.push(chunk);\<close>
  An absent \<^verbatim>\<open>stream\<close> is \<open>None\<close>; a stream object is always truthy.
\<close>

fun flush_loop ::
  "'r option \<Rightarrow> ('c \<times> nat) list \<Rightarrow> ('r, 'c) multi_buffered \<Rightarrow> ('r, 'c) multi_buffered" where
  "flush_loop stream [] s = s"
| "flush_loop stream ((chunk, t) # rest) s =
     (if stream \<noteq> None \<and> inputPerOutput s t \<noteq> stream
      then flush_loop stream rest s
      else flush_loop stream rest (push t chunk s))"

text \<open>\<^verbatim>\<open>buffer.splice(0, buffer.length)\<close> empties the buffer and returns its former content.\<close>

definition flush :: "'r option \<Rightarrow> ('r, 'c) multi_buffered \<Rightarrow> ('r, 'c) multi_buffered" where
  "flush stream s = flush_loop stream (buffer s) (s\<lparr>buffer := []\<rparr>)"

definition clear :: "('r, 'c) multi_buffered \<Rightarrow> ('r, 'c) multi_buffered" where
  "clear s = s\<lparr>buffer := []\<rparr>"

text \<open>\<^verbatim>\<open>for (const r of this.outputs) { r.destroy(); }\<close>\<close>

definition destroy :: "('r, 'c) multi_buffered \<Rightarrow> ('r, 'c) multi_buffered" where
  "destroy s = s\<lparr>destroyed := map (\<lambda>_. True) (destroyed s)\<rparr>"

text \<open>
  A sequence of chunk arrivals, interleaved across the inputs in any way: each arrival
  \<open>(t, chunk)\<close> is one call of the \<^verbatim>\<open>write\<close> of output transform \<open>t\<close>.
\<close>

fun arrivals :: "(nat \<times> 'c) list \<Rightarrow> ('r, 'c) multi_buffered \<Rightarrow> ('r, 'c) multi_buffered" where
  "arrivals [] s = s"
| "arrivals ((t, chunk) # rest) s = arrivals rest (transform_write t chunk s)"

text \<open>What the readers of output transform \<open>t\<close> have received, in order.\<close>

definition received :: "nat \<Rightarrow> ('r, 'c) multi_buffered \<Rightarrow> 'c list" where
  "received t s = map snd (filter (\<lambda>e. fst e = t) (emitted s))"

section \<open>spawn.ts: the child process, its output and its outcome\<close>

subsection \<open>Streams, errors and the transformed stdio\<close>

text \<open>
  The stream objects that \<^verbatim>\<open>spawn\<close> handles: the two output streams of the child
  (\<^verbatim>\<open>child.stdout\<close>, \<^verbatim>\<open>child.stderr\<close>) and the two streams of the host process
  (\<^verbatim>\<open>process.stdout\<close>, \<^verbatim>\<open>process.stderr\<close>). They are four different objects.
\<close>

datatype stream = ChildStdout | ChildStderr | ProcessStdout | ProcessStderr

text \<open>The argument type \<^verbatim>\<open>"stdout" | "stderr" | "both"\<close> and the type \<^verbatim>\<open>OutputMode\<close>.\<close>

datatype selector = Stdout | Stderr | Both

datatype OutputMode = Inherit | Buffered

datatype error = AssertionError string | Error string

definition apostrophe :: char where
  "apostrophe = CHR 0x27"

text \<open>
  \<^verbatim>\<open>determineStream(stream)\<close>, branch by branch. Its last branch throws
  \<^verbatim>\<open>Unexpected stream\<close> for a value outside the three of the parameter's type; no value of
  \<open>selector\<close> reaches it.
\<close>

definition determineStream :: "selector \<Rightarrow> stream option" where
  "determineStream stream =
     (if stream = Stdout then Some ProcessStdout
      else if stream = Stderr then Some ProcessStdout
      else None)"

text \<open>
  The streams that \<^verbatim>\<open>spawn\<close> pipes into the host's streams:
  \<^item> \<open>arrived\<close>: the chunks that the child has written, each with its stream
    (0 for \<^verbatim>\<open>child.stdout\<close>, 1 for \<^verbatim>\<open>child.stderr\<close>), in arrival order;
  \<^item> \<open>multi\<close>: the result of \<^verbatim>\<open>createMultiBufferedTransform\<close>, which exists in the
    buffered mode only.
\<close>

record stdio =
  arrived :: "(nat \<times> string) list"
  multi :: "(stream, string) multi_buffered option"

text \<open>
  The fourth component of \<^verbatim>\<open>TransformedStdio\<close>,
  \<^verbatim>\<open>(stream?: "stdout" | "stderr" | "both") => void\<close>: it acts on the streams and returns
  normally (\<open>Inr ()\<close>) or throws (\<open>Inl\<close>).
\<close>

type_synonym flush_function = "selector option \<Rightarrow> stdio \<Rightarrow> (error + unit) \<times> stdio"

text \<open>The function returned in the inherit mode: it throws at once.\<close>

definition flush_inherit :: flush_function where
  "flush_inherit stream w =
     (Inl (Error (''Switch to '' @ [apostrophe] @ ''buffered'' @ [apostrophe] @
                  '' output mode to flush buffers'')), w)"

text \<open>
  The function returned in the buffered mode, with its default \<^verbatim>\<open>stream = "both"\<close>:
  \<^verbatim>\<open>transform.flush(determineStream(stream)); transform.destroy();\<close>
\<close>

definition flush_buffered :: flush_function where
  "flush_buffered stream w =
     (Inr (),
      w\<lparr>multi :=
          map_option
            (\<lambda>m. destroy (flush (determineStream (case stream of None \<Rightarrow> Both | Some s \<Rightarrow> s)) m))
            (multi w)\<rparr>)"

text \<open>Which of its three streams the child has (\<^verbatim>\<open>child.stdin\<close> and so on are not null).\<close>

record ChildProcess =
  stdin :: bool
  stdout :: bool
  stderr :: bool

text \<open>
  \<^verbatim>\<open>transformStdio(child, mode)\<close>: the three assertions, then the streams and the flush
  function of the mode. The last branch of the source throws for a mode outside
  \<^verbatim>\<open>OutputMode\<close>.
\<close>

definition transformStdio :: "ChildProcess \<Rightarrow> OutputMode \<Rightarrow> error + (stdio \<times> flush_function)" where
  "transformStdio child mode =
     (if \<not> stdin child then Inl (AssertionError ''Expected child to have stdin'')
      else if \<not> stdout child then Inl (AssertionError ''Expected child to have stdout'')
      else if \<not> stderr child then Inl (AssertionError ''Expected child to have stderr'')
      else if mode = Inherit
      then Inr (\<lparr>arrived = [], multi = None\<rparr>, flush_inherit)
      else Inr (\<lparr>arrived = [],
                 multi = Some (createMultiBufferedTransform [ChildStdout, ChildStderr])\<rparr>,
                flush_buffered))"

text \<open>
  A chunk written by the child on stream \<open>t\<close>. In the buffered mode the stream is piped
  into output transform \<open>t\<close>, whose \<^verbatim>\<open>write\<close> puts the chunk into the buffer.
\<close>

definition child_data :: "nat \<Rightarrow> string \<Rightarrow> stdio \<Rightarrow> stdio" where
  "child_data t chunk w =
     w\<lparr>arrived := arrived w @ [(t, chunk)],
       multi := map_option (transform_write t chunk) (multi w)\<rparr>"

fun child_writes :: "(nat \<times> string) list \<Rightarrow> stdio \<Rightarrow> stdio" where
  "child_writes [] w = w"
| "child_writes ((t, chunk) # rest) w = child_writes rest (child_data t chunk w)"

text \<open>
  The chunks that reach the pipe towards host stream \<open>t\<close>: \<^verbatim>\<open>spawn\<close> pipes the second
  and third component of the transformed stdio, which are the child's own streams in the
  inherit mode and the output transforms in the buffered mode.
\<close>

definition piped :: "nat \<Rightarrow> stdio \<Rightarrow> string list" where
  "piped t w =
     (case multi w of
        None \<Rightarrow> map snd (filter (\<lambda>e. fst e = t) (arrived w))
      | Some m \<Rightarrow> received t m)"

text \<open>
  The bytes written to the host stream \<open>t\<close> (0 for \<^verbatim>\<open>process.stdout\<close>, 1 for
  \<^verbatim>\<open>process.stderr\<close>):
  \<^verbatim>\<open>if (typeof outputPrefix === "string") {
    stdout.pipe(createPrefixingTransform(outputPrefix)).pipe(process.stdout); ...
  } else { stdout.pipe(process.stdout); ... }\<close>
\<close>

definition host_stream :: "string option \<Rightarrow> nat \<Rightarrow> stdio \<Rightarrow> string" where
  "host_stream outputPrefix t w =
     (case outputPrefix of
        Some prefix \<Rightarrow> createPrefixingTransform_output prefix (piped t w)
      | None \<Rightarrow> concat (piped t w))"

subsection \<open>SpawnFailure\<close>

text \<open>
  The decimal text of an integer, as the template literal \<^verbatim>\<open>${code}\<close> renders an exit
  code.
\<close>

definition digit :: "nat \<Rightarrow> char" where
  "digit n = ''0123456789'' ! n"

fun digits :: "nat \<Rightarrow> string" where
  "digits n = (if n < 10 then [digit n] else digits (n div 10) @ [digit (n mod 10)])"

declare digits.simps [simp del]

definition number_toString :: "int \<Rightarrow> string" where
  "number_toString i = (if i < 0 then CHR ''-'' # digits (nat (- i)) else digits (nat i))"

text \<open>
  The class \<^verbatim>\<open>SpawnFailure extends Error\<close>: its four public fields, the private
  \<^verbatim>\<open>flush\<close> (here \<open>failure_flush\<close>) and the \<^verbatim>\<open>message\<close> that the constructor hands to
  \<^verbatim>\<open>super\<close>. A \<^verbatim>\<open>null\<close> code or signal is \<open>None\<close>.
\<close>

record SpawnFailure =
  command :: string
  args :: "string list"
  code :: "int option"
  signal :: "string option"
  failure_flush :: flush_function
  message :: string

definition new_SpawnFailure ::
  "string \<Rightarrow> string list \<Rightarrow> int option \<Rightarrow> string option \<Rightarrow> flush_function \<Rightarrow> SpawnFailure" where
  "new_SpawnFailure command' args' code' signal' flush' =
     \<lparr> command = command', args = args', code = code', signal = signal',
       failure_flush = flush',
       message =
         ''Running '' @ [apostrophe] @ command' @ [apostrophe] @ '' failed'' @
         (case code' of Some c \<Rightarrow> '' (code = '' @ number_toString c @ '')'' | None \<Rightarrow> []) @
         (case signal' of Some sig \<Rightarrow> '' (signal = '' @ sig @ '')'' | None \<Rightarrow> []) \<rparr>"

text \<open>\<^verbatim>\<open>flushOutput(stream = "both") { this.flush(stream); }\<close>\<close>

definition flushOutput :: "SpawnFailure \<Rightarrow> selector option \<Rightarrow> stdio \<Rightarrow> (error + unit) \<times> stdio" where
  "flushOutput failure stream w =
     failure_flush failure (Some (case stream of None \<Rightarrow> Both | Some s \<Rightarrow> s)) w"

subsection \<open>The listeners and the promise of \<^verbatim>\<open>spawn\<close>\<close>

datatype reason = Failure SpawnFailure | ChildError error

datatype promise = Pending | Resolved | Rejected reason

text \<open>
  What a call of \<^verbatim>\<open>spawn\<close> holds besides the streams:
  \<^item> \<open>spawn_command\<close>, \<open>spawn_args\<close>, \<open>spawn_flushOutput\<close>: the variables
    \<^verbatim>\<open>command\<close>, \<^verbatim>\<open>args\<close> and \<^verbatim>\<open>flushOutput\<close> that the exit listener closes over;
  \<^item> \<open>exitListener\<close>, \<open>sigintListener\<close>: \<^verbatim>\<open>killChild\<close> is registered for the host's
    \<^verbatim>\<open>"exit"\<close>, \<^verbatim>\<open>interruptChild\<close> for its \<^verbatim>\<open>"SIGINT"\<close>;
  \<^item> \<open>childExitListener\<close>, \<open>childErrorListener\<close>: the two \<^verbatim>\<open>child.once\<close> listeners;
  \<^item> \<open>kills\<close>: the calls of \<^verbatim>\<open>child.kill\<close> so far, each with its argument
    (\<open>None\<close> for \<^verbatim>\<open>child.kill()\<close>, which sends the default termination signal);
  \<^item> \<open>result\<close>: the state of the returned promise.
\<close>

record spawned =
  spawn_command :: string
  spawn_args :: "string list"
  spawn_flushOutput :: flush_function
  exitListener :: bool
  sigintListener :: bool
  childExitListener :: bool
  childErrorListener :: bool
  kills :: "string option list"
  result :: promise

text \<open>\<^verbatim>\<open>const killChild = () => child.kill(); const interruptChild = () => child.kill("SIGINT");\<close>\<close>

definition killChild :: "spawned \<Rightarrow> spawned" where
  "killChild st = st\<lparr>kills := kills st @ [None]\<rparr>"

definition interruptChild :: "spawned \<Rightarrow> spawned" where
  "interruptChild st = st\<lparr>kills := kills st @ [Some ''SIGINT'']\<rparr>"

text \<open>A promise is settled once: \<^verbatim>\<open>resolve\<close> and \<^verbatim>\<open>reject\<close> do nothing to a settled one.\<close>

definition resolve :: "spawned \<Rightarrow> spawned" where
  "resolve st = (if result st = Pending then st\<lparr>result := Resolved\<rparr> else st)"

definition reject :: "reason \<Rightarrow> spawned \<Rightarrow> spawned" where
  "reject r st = (if result st = Pending then st\<lparr>result := Rejected r\<rparr> else st)"

text \<open>
  The listener of the child's \<^verbatim>\<open>"exit"\<close>:
  \<^verbatim>\<open>process.off("exit", killChild); process.off("SIGINT", interruptChild);
  if (code === 0 && signal === null) { resolve(); }
  else { reject(new SpawnFailure(command, args, code, signal, flushOutput)); }\<close>
\<close>

definition child_exit_listener :: "int option \<Rightarrow> string option \<Rightarrow> spawned \<Rightarrow> spawned" where
  "child_exit_listener code' signal' st =
     (let st1 = st\<lparr>exitListener := False, sigintListener := False\<rparr>
      in if code' = Some 0 \<and> signal' = None
         then resolve st1
         else reject (Failure (new_SpawnFailure (spawn_command st) (spawn_args st) code' signal'
                                 (spawn_flushOutput st))) st1)"

text \<open>
  The events that reach the listeners. A listener registered with \<^verbatim>\<open>once\<close> is removed
  when its event is emitted, before it runs; an event whose listener is gone does not
  reach this code.
\<close>

datatype event =
  HostExit
| HostSIGINT
| ChildExit "int option" "string option"
| ChildErrorEvent error

fun emit :: "event \<Rightarrow> spawned \<Rightarrow> spawned" where
  "emit HostExit st =
     (if exitListener st then killChild (st\<lparr>exitListener := False\<rparr>) else st)"
| "emit HostSIGINT st =
     (if sigintListener st then interruptChild (st\<lparr>sigintListener := False\<rparr>) else st)"
| "emit (ChildExit code' signal') st =
     (if childExitListener st
      then child_exit_listener code' signal' (st\<lparr>childExitListener := False\<rparr>)
      else st)"
| "emit (ChildErrorEvent e) st =
     (if childErrorListener st
      then reject (ChildError e) (st\<lparr>childErrorListener := False\<rparr>)
      else st)"

fun emit_all :: "event list \<Rightarrow> spawned \<Rightarrow> spawned" where
  "emit_all [] st = st"
| "emit_all (e # es) st = emit_all es (emit e st)"

text \<open>
  \<^verbatim>\<open>spawn(command, args, { outputMode = "inherit", outputPrefix, ...options })\<close> up to the
  return of the promise, for the child that \<^verbatim>\<open>cp.spawn\<close> has created: the two listeners
  of the host are registered, the stdio is transformed (an assertion that fails there is
  thrown to the caller), the two listeners of the child are registered and the promise is
  pending. The pipes that are set up with \<^verbatim>\<open>outputPrefix\<close> are in \<open>host_stream\<close>.
\<close>

definition spawn ::
  "string \<Rightarrow> string list \<Rightarrow> OutputMode option \<Rightarrow> ChildProcess \<Rightarrow> error + (spawned \<times> stdio)" where
  "spawn command' args' outputMode child =
     (case transformStdio child (case outputMode of None \<Rightarrow> Inherit | Some mode \<Rightarrow> mode) of
        Inl e \<Rightarrow> Inl e
      | Inr (w, flushOutput') \<Rightarrow>
          Inr (\<lparr> spawn_command = command', spawn_args = args',
                 spawn_flushOutput = flushOutput',
                 exitListener = True, sigintListener = True,
                 childExitListener = True, childErrorListener = True,
                 kills = [], result = Pending \<rparr>, w))"

text \<open>The events before the child's first \<^verbatim>\<open>"exit"\<close>.\<close>

fun is_ChildExit :: "event \<Rightarrow> bool" where
  "is_ChildExit (ChildExit code' signal') = True"
| "is_ChildExit e = False"

definition before_exit :: "event list \<Rightarrow> event list" where
  "before_exit es = takeWhile (\<lambda>e. \<not> is_ChildExit e) es"

section \<open>Properties of the line prefixing transform\<close>

lemma split_newline_nonempty: "split_newline str \<noteq> []"
  by (induction str) (auto split: list.splits)

lemma split_newline_single: "split_newline str = [seg] \<Longrightarrow> seg = str"
proof (induction str arbitrary: seg)
  case Nil
  then show ?case by simp
next
  case (Cons c cs)
  then show ?case
    using split_newline_nonempty [of cs]
    by (cases "split_newline cs") (auto split: if_splits)
qed

lemma last_split_newline:
  "(last (split_newline str) = []) = (str = [] \<or> last str = newline)"
proof (induction str)
  case Nil
  then show ?case by simp
next
  case (Cons c cs)
  then show ?case
    using split_newline_nonempty [of cs]
    by (cases "split_newline cs") (auto split: list.splits dest: split_newline_single)
qed

lemma butlast_split_newline:
  "(butlast (split_newline str) = []) = (newline \<notin> set str)"
proof (induction str)
  case Nil
  then show ?case by simp
next
  case (Cons c cs)
  then show ?case
    using split_newline_nonempty [of cs]
    by (cases "split_newline cs") (auto split: list.splits)
qed

lemma push_lines_concat:
  "concat (snd (push_lines prefix lines (b, pushed))) = concat pushed @ prefixed_lines prefix b lines"
  by (induction lines arbitrary: b pushed) auto

lemma push_lines_fst: "fst (push_lines prefix lines (b, pushed)) = (b \<or> lines \<noteq> [])"
  by (induction lines arbitrary: b pushed) auto

lemma prefixed_lines_True:
  "prefixed_lines prefix True lines = concat (map (\<lambda>line. prefix @ line @ [newline]) lines)"
  by (induction lines) auto

text \<open>The text read character by character is the text read segment by segment.\<close>

lemma frame_split_newline:
  "frame prefix b str =
     prefixed_lines prefix b (butlast (split_newline str)) @
     (if last (split_newline str) \<noteq> []
      then (if b \<or> butlast (split_newline str) \<noteq> [] then prefix else []) @
           last (split_newline str)
      else [])"
proof (induction str arbitrary: b)
  case Nil
  then show ?case by simp
next
  case (Cons c cs)
  show ?case
  proof (cases "split_newline cs")
    case Nil
    then show ?thesis using split_newline_nonempty [of cs] by simp
  next
    case (Cons seg segs)
    then show ?thesis
      using Cons.IH [of True] Cons.IH [of False] by (auto split: list.splits)
  qed
qed

lemma transform_concat: "concat (snd (transform prefix b str)) = frame prefix b str"
  unfolding transform_def Let_def
  by (simp add: split_beta push_lines_concat push_lines_fst frame_split_newline)

lemma transform_cursor: "fst (transform prefix b str) = cursor b str"
  unfolding transform_def Let_def cursor_def
  by (cases str rule: rev_cases)
     (auto simp: split_beta push_lines_fst last_split_newline butlast_split_newline)

lemma frame_append:
  "frame prefix b (xs @ ys) = frame prefix b xs @ frame prefix (cursor b xs) ys"
  by (induction xs arbitrary: b) (auto simp: cursor_def)

lemma cursor_append: "cursor b (xs @ ys) = cursor (cursor b xs) ys"
  by (auto simp: cursor_def)

lemma transform_chunks_eq:
  "transform_chunks prefix b chunks = (cursor b (concat chunks), frame prefix b (concat chunks))"
proof (induction chunks arbitrary: b)
  case Nil
  then show ?case by (simp add: cursor_def)
next
  case (Cons chunk chunks)
  then show ?case
    by (simp add: split_beta Let_def transform_concat transform_cursor frame_append cursor_append)
qed

text \<open>
  Claim C6. With the prefix \<^verbatim>\<open>"[P] "\<close>, the single chunk \<^verbatim>\<open>"Line1\nLine2\nLine3\n"\<close>
  gives exactly \<^verbatim>\<open>"[P] Line1\n[P] Line2\n[P] Line3\n"\<close>, and the two chunks
  \<^verbatim>\<open>"Line1\nPartia"\<close> and \<^verbatim>\<open>"lLine\nLine2\n"\<close>, in this order, give exactly
  \<^verbatim>\<open>"[P] Line1\n[P] PartialLine\n[P] Line2\n"\<close>.
\<close>

theorem C6_scenarios:
  "createPrefixingTransform_output ''[P] ''
     [''Line1'' @ [newline] @ ''Line2'' @ [newline] @ ''Line3'' @ [newline]]
   = ''[P] Line1'' @ [newline] @ ''[P] Line2'' @ [newline] @ ''[P] Line3'' @ [newline]
   \<and>
   createPrefixingTransform_output ''[P] ''
     [''Line1'' @ [newline] @ ''Partia'', ''lLine'' @ [newline] @ ''Line2'' @ [newline]]
   = ''[P] Line1'' @ [newline] @ ''[P] PartialLine'' @ [newline] @ ''[P] Line2'' @ [newline]"
  by (simp add: createPrefixingTransform_output_def transform_def newline_def)

text \<open>
  Claim C3. For every text and every way of cutting it into chunks, the output over the
  chunks, processed in order, is the output for the whole text fed as one chunk (and the
  transform is left in the same state). In particular every line has one prefix, however
  many chunks it spans: the output is each complete line of the whole text with the prefix
  in front and the separator behind, followed by the prefix and the unfinished last line
  when there is one.
\<close>

theorem C3_rechunking:
  "transform_chunks prefix needsPrefix chunks = transform_chunks prefix needsPrefix [concat chunks]
   \<and> createPrefixingTransform_output prefix chunks =
       createPrefixingTransform_output prefix [concat chunks]
   \<and> createPrefixingTransform_output prefix chunks =
       concat (map (\<lambda>line. prefix @ line @ [newline]) (butlast (split_newline (concat chunks)))) @
       (if last (split_newline (concat chunks)) = [] then []
        else prefix @ last (split_newline (concat chunks)))"
proof -
  have whole: "transform_chunks prefix b chunks = transform_chunks prefix b [concat chunks]" for b
    by (simp only: transform_chunks_eq) simp
  have "createPrefixingTransform_output prefix chunks = frame prefix True (concat chunks)"
    by (simp add: createPrefixingTransform_output_def transform_chunks_eq)
  then show ?thesis
    using whole
    by (simp add: createPrefixingTransform_output_def frame_split_newline prefixed_lines_True)
qed

text \<open>
  Claim C10. For every call of \<^verbatim>\<open>transform\<close>: when the decoded text is empty, nothing is
  pushed and \<^verbatim>\<open>needsPrefix\<close> keeps its value; otherwise \<^verbatim>\<open>needsPrefix\<close> is true after
  the call if and only if the text ends with the line separator.
\<close>

theorem C10_cursor:
  "(text = [] \<longrightarrow> transform prefix needsPrefix text = (needsPrefix, []))
   \<and> (text \<noteq> [] \<longrightarrow> fst (transform prefix needsPrefix text) = (last text = newline))"
proof -
  have "transform prefix needsPrefix [] = (needsPrefix, [])"
    by (simp add: transform_def)
  moreover have "text \<noteq> [] \<Longrightarrow> fst (transform prefix needsPrefix text) = (last text = newline)"
    by (simp add: transform_cursor cursor_def)
  ultimately show ?thesis by simp
qed

theorem C10_cursor_witness:
  "transform ''> '' False [] = (False, [])
   \<and> fst (transform ''> '' False (''ab'' @ [newline]))
   \<and> \<not> fst (transform ''> '' True ''ab'')"
  using C10_cursor [of "[]" "''> ''" False]
    C10_cursor [of "''ab'' @ [newline]" "''> ''" False]
    C10_cursor [of "''ab''" "''> ''" True]
  by (simp add: newline_def)

section \<open>Properties of the shared buffer\<close>

lemma push_fields [simp]:
  "buffer (push t chunk s) = buffer s"
  "inputPerOutput (push t chunk s) = inputPerOutput s"
  "destroyed (push t chunk s) = destroyed s"
  by (simp_all add: push_def)

lemma flush_loop_fields [simp]:
  "buffer (flush_loop stream pairs s) = buffer s"
  "inputPerOutput (flush_loop stream pairs s) = inputPerOutput s"
  "destroyed (flush_loop stream pairs s) = destroyed s"
  by (induction stream pairs s rule: flush_loop.induct) simp_all

text \<open>
  What a flush emits: the pairs that pass the filter of the selector and whose output
  transform is live, in the order of the buffer.
\<close>

lemma flush_loop_emitted:
  "emitted (flush_loop stream pairs s) =
     emitted s @
     map (\<lambda>(chunk, t). (t, chunk))
       (filter (\<lambda>(chunk, t). (stream = None \<or> inputPerOutput s t = stream) \<and>
                              t < length (destroyed s) \<and> \<not> destroyed s ! t) pairs)"
  by (induction stream pairs s rule: flush_loop.induct) (auto simp: push_def)

lemma arrivals_fields [simp]:
  "buffer (arrivals ws s) = buffer s @ map (\<lambda>(t, chunk). (chunk, t)) ws"
  "inputPerOutput (arrivals ws s) = inputPerOutput s"
  "destroyed (arrivals ws s) = destroyed s"
  "emitted (arrivals ws s) = emitted s"
  by (induction ws s rule: arrivals.induct) (simp_all add: transform_write_def)

lemma flush_fields [simp]:
  "buffer (flush stream s) = []"
  "inputPerOutput (flush stream s) = inputPerOutput s"
  "destroyed (flush stream s) = destroyed s"
  by (simp_all add: flush_def)

lemma flush_emitted:
  "emitted (flush stream s) =
     emitted s @
     map (\<lambda>(chunk, t). (t, chunk))
       (filter (\<lambda>(chunk, t). (stream = None \<or> inputPerOutput s t = stream) \<and>
                              t < length (destroyed s) \<and> \<not> destroyed s ! t) (buffer s))"
  by (simp add: flush_def flush_loop_emitted)

lemma destroy_fields [simp]:
  "buffer (destroy s) = buffer s"
  "inputPerOutput (destroy s) = inputPerOutput s"
  "destroyed (destroy s) = replicate (length (destroyed s)) True"
  "emitted (destroy s) = emitted s"
  by (simp_all add: destroy_def map_replicate_const)

lemma flush_after_destroy:
  "destroyed s = replicate n True \<Longrightarrow> emitted (flush stream s) = emitted s"
  by (auto simp: flush_emitted filter_empty_conv)

lemma flush_live_arrivals:
  assumes "\<forall>(t, chunk) \<in> set ws. t < length (destroyed s) \<and> \<not> destroyed s ! t"
    and "buffer s = []"
  shows "emitted (flush None (arrivals ws s)) = emitted s @ ws"
proof -
  have "filter (\<lambda>(chunk, t). t < length (destroyed s) \<and> \<not> destroyed s ! t)
          (map (\<lambda>(t, chunk). (chunk, t)) ws) = map (\<lambda>(t, chunk). (chunk, t)) ws"
    by (rule filter_True) (use assms(1) in auto)
  then show ?thesis
    using assms(2) by (simp add: flush_emitted split_beta o_def)
qed

text \<open>
  Claim C1. For every sequence of chunk arrivals \<open>ws\<close>, interleaved in any way across the
  inputs of a newly created buffer, a following \<^verbatim>\<open>flush()\<close> without a selector empties
  the buffer and makes the output transforms emit exactly the arrived chunks, each from
  the output transform of its own input, in the global order of arrival; so every single
  output emits the chunks of its input in their order of arrival as well.
\<close>

theorem C1_flush_keeps_arrival_order:
  assumes "\<forall>(t, chunk) \<in> set ws. t < length inputs"
  shows "emitted (flush None (arrivals ws (createMultiBufferedTransform inputs))) = ws
       \<and> buffer (flush None (arrivals ws (createMultiBufferedTransform inputs))) = []
       \<and> (\<forall>t. received t (flush None (arrivals ws (createMultiBufferedTransform inputs))) =
                map snd (filter (\<lambda>w. fst w = t) ws))"
proof -
  let ?s0 = "createMultiBufferedTransform inputs :: ('b, 'a) multi_buffered"
  have "\<forall>(t, chunk) \<in> set ws. t < length (destroyed ?s0) \<and> \<not> destroyed ?s0 ! t"
    using assms by (auto simp: createMultiBufferedTransform_def)
  moreover have "buffer ?s0 = []" "emitted ?s0 = []"
    by (simp_all add: createMultiBufferedTransform_def)
  ultimately have "emitted (flush None (arrivals ws ?s0)) = ws"
    using flush_live_arrivals [of ws ?s0] by simp
  then show ?thesis by (simp add: received_def)
qed

theorem C1_flush_keeps_arrival_order_witness:
  "emitted (flush None (arrivals [(0, ''hello''), (1, ''world''), (0, ''!'')]
            (createMultiBufferedTransform [''A'', ''B''])))
     = [(0, ''hello''), (1, ''world''), (0, ''!'')]
   \<and> received 0 (flush None (arrivals [(0, ''hello''), (1, ''world''), (0, ''!'')]
            (createMultiBufferedTransform [''A'', ''B'']))) = [''hello'', ''!'']
   \<and> received 1 (flush None (arrivals [(0, ''hello''), (1, ''world''), (0, ''!'')]
            (createMultiBufferedTransform [''A'', ''B'']))) = [''world'']"
  using C1_flush_keeps_arrival_order
    [of "[(0, ''hello''), (1, ''world''), (0, ''!'')]" "[''A'', ''B'']"]
  by simp

text \<open>
  Claim C5. Take a buffer over distinct inputs whose output transforms are live, with any
  content \<open>pairs\<close> and any chunks \<open>before\<close> emitted before, and an input \<open>inputs ! x\<close>. Then
  \<^verbatim>\<open>flush(inputs[x])\<close> makes output \<open>x\<close> emit exactly the buffered chunks of input \<open>x\<close>,
  in their order of arrival, nothing is emitted by another output, and the buffer is
  empty afterwards: the chunks of the other inputs are gone for good, since a later
  \<^verbatim>\<open>flush()\<close> without a selector emits only the chunks \<open>later\<close> that arrived after
  the first flush.
\<close>

theorem C5_selective_flush:
  assumes "distinct inputs" and "x < length inputs"
    and "s = (createMultiBufferedTransform inputs)\<lparr>buffer := pairs, emitted := before\<rparr>"
    and "\<forall>(t, chunk) \<in> set later. t < length inputs"
  shows "emitted (flush (Some (inputs ! x)) s) =
           before @ map (\<lambda>(chunk, t). (x, chunk)) (filter (\<lambda>(chunk, t). t = x) pairs)
       \<and> buffer (flush (Some (inputs ! x)) s) = []
       \<and> emitted (flush None (arrivals later (flush (Some (inputs ! x)) s))) =
           emitted (flush (Some (inputs ! x)) s) @ later"
proof -
  let ?s1 = "flush (Some (inputs ! x)) s"
  have selected:
    "(inputPerOutput s t = Some (inputs ! x) \<and> t < length (destroyed s) \<and> \<not> destroyed s ! t)
       = (t = x)" for t
    using assms(1,2) by (auto simp: assms(3) createMultiBufferedTransform_def nth_eq_iff_index_eq)
  have "map (\<lambda>(chunk, t). (t, chunk)) (filter (\<lambda>(chunk, t). t = x) pairs) =
        map (\<lambda>(chunk, t). (x, chunk)) (filter (\<lambda>(chunk, t). t = x) pairs)"
    by (rule map_cong) auto
  then have first: "emitted ?s1 =
      before @ map (\<lambda>(chunk, t). (x, chunk)) (filter (\<lambda>(chunk, t). t = x) pairs)"
    by (simp add: flush_emitted selected) (simp add: assms(3))
  have "\<forall>(t, chunk) \<in> set later. t < length (destroyed ?s1) \<and> \<not> destroyed ?s1 ! t"
    using assms(4) by (auto simp: assms(3) createMultiBufferedTransform_def)
  then have second: "emitted (flush None (arrivals later ?s1)) = emitted ?s1 @ later"
    using flush_live_arrivals [of later ?s1] by simp
  show ?thesis using first second by simp
qed

theorem C5_selective_flush_witness:
  "emitted (flush (Some ''A'')
     ((createMultiBufferedTransform [''A'', ''B''])
        \<lparr>buffer := [(''hello'', 0), (''world'', 1), (''!'', 0)], emitted := []\<rparr>))
     = [(0, ''hello''), (0, ''!'')]
   \<and> emitted (flush None (arrivals [(1, ''again'')] (flush (Some ''A'')
     ((createMultiBufferedTransform [''A'', ''B''])
        \<lparr>buffer := [(''hello'', 0), (''world'', 1), (''!'', 0)], emitted := []\<rparr>))))
     = [(0, ''hello''), (0, ''!''), (1, ''again'')]"
  using C5_selective_flush
    [where inputs = "[''A'', ''B'']" and x = 0
       and s = "(createMultiBufferedTransform [''A'', ''B''])
           \<lparr>buffer := [(''hello'', 0), (''world'', 1), (''!'', 0)], emitted := []\<rparr>"
       and pairs = "[(''hello'', 0), (''world'', 1), (''!'', 0)]" and before = "[]"
       and later = "[(1, ''again'')]"]
  by simp

section \<open>Properties of \<^verbatim>\<open>spawn\<close>\<close>

subsection \<open>The streams and the flush functions\<close>

lemma child_writes_multi: "multi (child_writes ws w) = map_option (arrivals ws) (multi w)"
proof (induction ws w rule: child_writes.induct)
  case (1 w)
  then show ?case by (cases "multi w") simp_all
next
  case (2 t chunk rest w)
  then show ?case by (cases "multi w") (simp_all add: child_data_def)
qed

lemma host_stream_cong:
  "piped t w = piped t w' \<Longrightarrow> host_stream outputPrefix t w = host_stream outputPrefix t w'"
  by (cases outputPrefix) (simp_all add: host_stream_def)

lemma failure_flush_new [simp]:
  "failure_flush (new_SpawnFailure command' args' code' signal' flush') = flush'"
  by (simp add: new_SpawnFailure_def)

lemma spawn_initial:
  "spawn command' args' outputMode child = Inr (sti, wi) \<Longrightarrow>
   spawn_command sti = command' \<and> spawn_args sti = args' \<and> result sti = Pending
   \<and> childExitListener sti \<and> childErrorListener sti \<and> exitListener sti \<and> sigintListener sti
   \<and> kills sti = []"
  by (auto simp: spawn_def split: sum.splits)

lemma spawn_flushOutput_mode:
  "spawn command' args' outputMode child = Inr (sti, wi) \<Longrightarrow>
   spawn_flushOutput sti =
     (if outputMode = None \<or> outputMode = Some Inherit then flush_inherit else flush_buffered)"
  by (auto simp: spawn_def transformStdio_def split: if_splits option.splits)

subsection \<open>The listeners\<close>

lemmas listener_defs =
  child_exit_listener_def resolve_def reject_def killChild_def interruptChild_def Let_def

lemma emit_closure [simp]:
  "spawn_command (emit e st) = spawn_command st"
  "spawn_args (emit e st) = spawn_args st"
  "spawn_flushOutput (emit e st) = spawn_flushOutput st"
  by (cases e; simp add: listener_defs)+

lemma emit_all_closure [simp]:
  "spawn_command (emit_all es st) = spawn_command st"
  "spawn_args (emit_all es st) = spawn_args st"
  "spawn_flushOutput (emit_all es st) = spawn_flushOutput st"
  by (induction es arbitrary: st) simp_all

lemma emit_all_append: "emit_all (xs @ ys) st = emit_all ys (emit_all xs st)"
  by (induction xs arbitrary: st) simp_all

text \<open>A settled promise stays as it is.\<close>

lemma emit_settled: "result st \<noteq> Pending \<Longrightarrow> result (emit e st) = result st"
  by (cases e) (auto simp: listener_defs)

lemma emit_all_settled: "result st \<noteq> Pending \<Longrightarrow> result (emit_all es st) = result st"
proof (induction es arbitrary: st)
  case Nil
  then show ?case by simp
next
  case (Cons e es)
  then show ?case using emit_settled [of st e] by simp
qed

text \<open>While the promise is pending, the listener of the child's exit is registered.\<close>

lemma emit_pending_listening:
  "(result st = Pending \<longrightarrow> childExitListener st) \<Longrightarrow>
   (result (emit e st) = Pending \<longrightarrow> childExitListener (emit e st))"
  by (cases e) (auto simp: listener_defs)

lemma emit_all_pending_listening:
  "(result st = Pending \<longrightarrow> childExitListener st) \<Longrightarrow>
   (result (emit_all es st) = Pending \<longrightarrow> childExitListener (emit_all es st))"
proof (induction es arbitrary: st)
  case Nil
  then show ?case by simp
next
  case (Cons e es)
  then show ?case using emit_pending_listening [of st e] by simp
qed

text \<open>A \<^verbatim>\<open>SpawnFailure\<close> in the promise was made by the exit listener of this call.\<close>

lemma emit_result_Failure:
  "result (emit e st) = Rejected (Failure f) \<Longrightarrow>
   result st = Rejected (Failure f) \<or>
   (result st = Pending \<and>
    (\<exists>c sg. f = new_SpawnFailure (spawn_command st) (spawn_args st) c sg (spawn_flushOutput st)))"
  by (cases e) (auto simp: listener_defs split: if_splits)

lemma emit_all_result_Failure:
  "result (emit_all es st) = Rejected (Failure f) \<Longrightarrow> result st = Pending \<Longrightarrow>
   \<exists>c sg. f = new_SpawnFailure (spawn_command st) (spawn_args st) c sg (spawn_flushOutput st)"
proof (induction es arbitrary: st)
  case Nil
  then show ?case by simp
next
  case (Cons e es)
  show ?case
  proof (cases "result (emit e st) = Pending")
    case True
    then show ?thesis using Cons.IH [of "emit e st"] Cons.prems by simp
  next
    case False
    then have "result (emit e st) = Rejected (Failure f)"
      using Cons.prems(1) emit_all_settled [of "emit e st" es] by simp
    then show ?thesis using emit_result_Failure [of e st f] Cons.prems(2) by auto
  qed
qed

subsection \<open>Flushing the output of a failed child\<close>

text \<open>
  Claim C8. When \<^verbatim>\<open>spawn\<close> was called in the inherit mode (given or by default), every
  call of \<^verbatim>\<open>flushOutput\<close> on a \<^verbatim>\<open>SpawnFailure\<close> of this call, with any argument and in
  any state of the streams, throws the error
  \<^verbatim>\<open>Switch to 'buffered' output mode to flush buffers\<close> to its caller and leaves the
  streams as they are: nothing is written to a host stream.
\<close>

theorem C8_flushOutput_inherit_throws:
  assumes "spawn command' args' outputMode child = Inr (sti, wi)"
    and "outputMode = None \<or> outputMode = Some Inherit"
    and "result (emit_all es sti) = Rejected (Failure failure)"
  shows "flushOutput failure stream w =
           (Inl (Error (''Switch to '' @ [apostrophe] @ ''buffered'' @ [apostrophe] @
                        '' output mode to flush buffers'')), w)
       \<and> host_stream outputPrefix t (snd (flushOutput failure stream w)) =
           host_stream outputPrefix t w"
proof -
  have "spawn_flushOutput sti = flush_inherit" "result sti = Pending"
    using spawn_flushOutput_mode [OF assms(1)] assms(2) spawn_initial [OF assms(1)] by auto
  then have "failure_flush failure = flush_inherit"
    using emit_all_result_Failure [OF assms(3)] by auto
  then show ?thesis by (simp add: flushOutput_def flush_inherit_def)
qed

theorem C8_flushOutput_inherit_throws_witness:
  "flushOutput (new_SpawnFailure ''npx'' [''tsx''] (Some 123) None flush_inherit) (Some Stderr)
     \<lparr>arrived = [(1, ''failure'' @ [newline])], multi = None\<rparr>
   = (Inl (Error (''Switch to '' @ [apostrophe] @ ''buffered'' @ [apostrophe] @
                  '' output mode to flush buffers'')),
      \<lparr>arrived = [(1, ''failure'' @ [newline])], multi = None\<rparr>)"
  using C8_flushOutput_inherit_throws
    [where command' = "''npx''" and args' = "[''tsx'']" and outputMode = "Some Inherit"
       and child = "\<lparr>stdin = True, stdout = True, stderr = True\<rparr>"
       and sti = "\<lparr>spawn_command = ''npx'', spawn_args = [''tsx''],
                   spawn_flushOutput = flush_inherit,
                   exitListener = True, sigintListener = True,
                   childExitListener = True, childErrorListener = True,
                   kills = [], result = Pending\<rparr>"
       and wi = "\<lparr>arrived = [], multi = None\<rparr>"
       and es = "[ChildExit (Some 123) None]"
       and failure = "new_SpawnFailure ''npx'' [''tsx''] (Some 123) None flush_inherit"
       and stream = "Some Stderr"
       and w = "\<lparr>arrived = [(1, ''failure'' @ [newline])], multi = None\<rparr>"]
  by (simp add: spawn_def transformStdio_def listener_defs)

text \<open>
  Claim C9. In the buffered mode, every call of \<^verbatim>\<open>flushOutput\<close> on a \<^verbatim>\<open>SpawnFailure\<close>
  of this call, with any argument, returns normally after it has flushed the shared
  buffer with the stream that \<^verbatim>\<open>determineStream\<close> gives and then destroyed all output
  transforms. After the call every output transform is destroyed and the buffer is empty;
  and whatever the child writes afterwards, a second call of \<^verbatim>\<open>flushOutput\<close>, with any
  argument, writes nothing more to a host stream.
\<close>

theorem C9_flushOutput_flushes_then_destroys:
  assumes "spawn command' args' (Some Buffered) child = Inr (sti, wi)"
    and "result (emit_all es sti) = Rejected (Failure failure)"
    and "multi w = Some m"
  shows "flushOutput failure stream w =
           (Inr (),
            w\<lparr>multi := Some (destroy (flush (determineStream
                                (case stream of None \<Rightarrow> Both | Some s \<Rightarrow> s)) m))\<rparr>)
       \<and> (\<exists>m'. multi (snd (flushOutput failure stream w)) = Some m'
               \<and> destroyed m' = replicate (length (destroyed m)) True \<and> buffer m' = [])
       \<and> host_stream outputPrefix t
            (snd (flushOutput failure again
               (child_writes ws (snd (flushOutput failure stream w)))))
          = host_stream outputPrefix t (snd (flushOutput failure stream w))"
proof -
  have "spawn_flushOutput sti = flush_buffered" "result sti = Pending"
    using spawn_flushOutput_mode [OF assms(1)] spawn_initial [OF assms(1)] by auto
  then have ff: "failure_flush failure = flush_buffered"
    using emit_all_result_Failure [OF assms(2)] by auto
  let ?m1 = "destroy (flush (determineStream (case stream of None \<Rightarrow> Both | Some s \<Rightarrow> s)) m)"
  have first: "flushOutput failure stream w = (Inr (), w\<lparr>multi := Some ?m1\<rparr>)"
    using assms(3) by (cases stream) (simp_all add: flushOutput_def ff flush_buffered_def)
  have d: "destroyed (arrivals ws ?m1) = replicate (length (destroyed m)) True"
    by simp
  have "emitted (flush sel (arrivals ws ?m1)) = emitted ?m1" for sel
    using flush_after_destroy [OF d, of sel] by simp
  then have "piped t (snd (flushOutput failure again (child_writes ws (w\<lparr>multi := Some ?m1\<rparr>))))
             = piped t (w\<lparr>multi := Some ?m1\<rparr>)"
    by (cases again)
       (simp_all add: flushOutput_def ff flush_buffered_def child_writes_multi piped_def
          received_def)
  then have "host_stream outputPrefix t
               (snd (flushOutput failure again (child_writes ws (w\<lparr>multi := Some ?m1\<rparr>))))
             = host_stream outputPrefix t (w\<lparr>multi := Some ?m1\<rparr>)"
    by (rule host_stream_cong)
  then show ?thesis
    using first by simp
qed

theorem C9_flushOutput_flushes_then_destroys_witness:
  "flushOutput (new_SpawnFailure ''npx'' [''tsx''] (Some 1) None flush_buffered) (Some Stdout)
     \<lparr>arrived = [], multi = Some (createMultiBufferedTransform [ChildStdout, ChildStderr])\<rparr>
     = (Inr (),
        \<lparr>arrived = [], multi = Some (createMultiBufferedTransform [ChildStdout, ChildStderr])\<rparr>
          \<lparr>multi := Some (destroy (flush (determineStream
                              (case Some Stdout of None \<Rightarrow> Both | Some s \<Rightarrow> s))
                       (createMultiBufferedTransform [ChildStdout, ChildStderr])))\<rparr>)
   \<and> host_stream None 0
       (snd (flushOutput (new_SpawnFailure ''npx'' [''tsx''] (Some 1) None flush_buffered) None
          (child_writes [(0, ''late'')]
             (snd (flushOutput (new_SpawnFailure ''npx'' [''tsx''] (Some 1) None flush_buffered)
                     (Some Stdout)
                     \<lparr>arrived = [],
                        multi = Some (createMultiBufferedTransform
                                        [ChildStdout, ChildStderr])\<rparr>)))))
     = host_stream None 0
         (snd (flushOutput (new_SpawnFailure ''npx'' [''tsx''] (Some 1) None flush_buffered)
            (Some Stdout)
            \<lparr>arrived = [],
               multi = Some (createMultiBufferedTransform [ChildStdout, ChildStderr])\<rparr>))"
proof -
  have launch:
    "spawn ''npx'' [''tsx''] (Some Buffered) \<lparr>stdin = True, stdout = True, stderr = True\<rparr> =
       Inr (\<lparr>spawn_command = ''npx'', spawn_args = [''tsx''],
              spawn_flushOutput = flush_buffered,
              exitListener = True, sigintListener = True,
              childExitListener = True, childErrorListener = True,
              kills = [], result = Pending\<rparr>,
            \<lparr>arrived = [],
               multi = Some (createMultiBufferedTransform [ChildStdout, ChildStderr])\<rparr>)"
    by (simp add: spawn_def transformStdio_def)
  have failed:
    "result (emit_all [ChildExit (Some 1) None]
        \<lparr>spawn_command = ''npx'', spawn_args = [''tsx''],
           spawn_flushOutput = flush_buffered,
           exitListener = True, sigintListener = True,
           childExitListener = True, childErrorListener = True,
           kills = [], result = Pending\<rparr>)
     = Rejected (Failure (new_SpawnFailure ''npx'' [''tsx''] (Some 1) None flush_buffered))"
    by (simp add: listener_defs)
  have buffered:
    "multi \<lparr>arrived = [],
            multi = Some (createMultiBufferedTransform [ChildStdout, ChildStderr])\<rparr>
     = Some (createMultiBufferedTransform [ChildStdout, ChildStderr])"
    by simp
  show ?thesis
    using C9_flushOutput_flushes_then_destroys
      [OF launch failed buffered, where stream = "Some Stdout" and again = None
         and ws = "[(0, ''late'')]" and outputPrefix = None and t = 0]
    by fast
qed

text \<open>
  Claim C2, evaluated on the code. The child has written \<^verbatim>\<open>"starting\n"\<close> to its stdout
  and \<^verbatim>\<open>"failed\n"\<close> to its stderr in the buffered mode, and has failed. Then
  \<^verbatim>\<open>flushOutput("stderr")\<close> writes nothing to \<^verbatim>\<open>process.stderr\<close> (and nothing to
  \<^verbatim>\<open>process.stdout\<close>): \<^verbatim>\<open>determineStream("stderr")\<close> is \<^verbatim>\<open>process.stdout\<close>, which is
  the input of no output transform, so every buffered chunk is dropped. The buffered
  chunk of stderr is what \<^verbatim>\<open>flushOutput("both")\<close> writes to \<^verbatim>\<open>process.stderr\<close> in the
  same state.
\<close>

theorem C2_flushOutput_stderr_drops_all:
  "determineStream Stderr = Some ProcessStdout
   \<and> host_stream None 1
        (snd (flushOutput (new_SpawnFailure ''npx'' [''tsx''] (Some 1) None flush_buffered)
                (Some Stderr)
                (child_writes [(0, ''starting'' @ [newline]), (1, ''failed'' @ [newline])]
                   \<lparr>arrived = [],
                      multi = Some (createMultiBufferedTransform [ChildStdout, ChildStderr])\<rparr>)))
      = []
   \<and> host_stream None 0
        (snd (flushOutput (new_SpawnFailure ''npx'' [''tsx''] (Some 1) None flush_buffered)
                (Some Stderr)
                (child_writes [(0, ''starting'' @ [newline]), (1, ''failed'' @ [newline])]
                   \<lparr>arrived = [],
                      multi = Some (createMultiBufferedTransform [ChildStdout, ChildStderr])\<rparr>)))
      = []
   \<and> host_stream None 1
        (snd (flushOutput (new_SpawnFailure ''npx'' [''tsx''] (Some 1) None flush_buffered)
                (Some Both)
                (child_writes [(0, ''starting'' @ [newline]), (1, ''failed'' @ [newline])]
                   \<lparr>arrived = [],
                      multi = Some (createMultiBufferedTransform [ChildStdout, ChildStderr])\<rparr>)))
      = ''failed'' @ [newline]"
  by (simp add: flushOutput_def flush_buffered_def child_data_def transform_write_def
      host_stream_def piped_def received_def flush_def push_def destroy_def determineStream_def
      createMultiBufferedTransform_def new_SpawnFailure_def)

subsection \<open>The outcome of the child\<close>

text \<open>
  Claim C4. While the promise is pending, the child's exit with \<open>(code, signal)\<close>
  resolves the promise if and only if the code is 0 and the signal is \<^verbatim>\<open>null\<close>. In every
  other case the promise is rejected with a \<^verbatim>\<open>SpawnFailure\<close> that carries the command, the
  arguments, the code, the signal and the flush function of this call (that of its output
  mode), and whose message is \<^verbatim>\<open>Running '<command>' failed\<close>, followed by
  \<^verbatim>\<open> (code = <code>)\<close> when the code is not \<^verbatim>\<open>null\<close> and by \<^verbatim>\<open> (signal = <signal>)\<close>
  when the signal is not \<^verbatim>\<open>null\<close>.
\<close>

theorem C4_exit_classification:
  assumes "spawn command' args' outputMode child = Inr (sti, wi)"
    and "result (emit_all es sti) = Pending"
  shows "(result (emit (ChildExit code' signal') (emit_all es sti)) = Resolved)
           = (code' = Some 0 \<and> signal' = None)
       \<and> (\<not> (code' = Some 0 \<and> signal' = None) \<longrightarrow>
            result (emit (ChildExit code' signal') (emit_all es sti)) =
              Rejected (Failure
                \<lparr> command = command', args = args', code = code', signal = signal',
                  failure_flush =
                    (if outputMode = None \<or> outputMode = Some Inherit
                     then flush_inherit else flush_buffered),
                  message =
                    ''Running '' @ [apostrophe] @ command' @ [apostrophe] @ '' failed'' @
                    (case code' of
                       Some c \<Rightarrow> '' (code = '' @ number_toString c @ '')'' | None \<Rightarrow> []) @
                    (case signal' of
                       Some sig \<Rightarrow> '' (signal = '' @ sig @ '')'' | None \<Rightarrow> []) \<rparr>))"
proof -
  have init: "spawn_command sti = command'" "spawn_args sti = args'"
    "result sti = Pending" "childExitListener sti"
    using spawn_initial [OF assms(1)] by simp_all
  have listening: "childExitListener (emit_all es sti)"
    using emit_all_pending_listening [of sti es] init assms(2) by simp
  show ?thesis
    using listening assms(2) init(1,2) spawn_flushOutput_mode [OF assms(1)]
    by (simp add: child_exit_listener_def resolve_def reject_def Let_def new_SpawnFailure_def)
qed

theorem C4_exit_classification_witness:
  "result (emit (ChildExit (Some 0) None)
     (emit_all [HostSIGINT]
        \<lparr>spawn_command = ''npx'', spawn_args = [''tsx''], spawn_flushOutput = flush_inherit,
           exitListener = True, sigintListener = True,
           childExitListener = True, childErrorListener = True,
           kills = [], result = Pending\<rparr>)) = Resolved
   \<and> result (emit (ChildExit (Some 123) None)
     (emit_all [HostSIGINT]
        \<lparr>spawn_command = ''npx'', spawn_args = [''tsx''], spawn_flushOutput = flush_inherit,
           exitListener = True, sigintListener = True,
           childExitListener = True, childErrorListener = True,
           kills = [], result = Pending\<rparr>)) =
       Rejected (Failure
         \<lparr> command = ''npx'', args = [''tsx''], code = Some 123, signal = None,
           failure_flush = flush_inherit,
           message = ''Running '' @ [apostrophe] @ ''npx'' @ [apostrophe] @
                     '' failed (code = 123)'' \<rparr>)"
proof -
  have launch:
    "spawn ''npx'' [''tsx''] None \<lparr>stdin = True, stdout = True, stderr = True\<rparr> =
       Inr (\<lparr>spawn_command = ''npx'', spawn_args = [''tsx''],
              spawn_flushOutput = flush_inherit,
              exitListener = True, sigintListener = True,
              childExitListener = True, childErrorListener = True,
              kills = [], result = Pending\<rparr>,
            \<lparr>arrived = [], multi = None\<rparr>)"
    by (simp add: spawn_def transformStdio_def)
  have pending:
    "result (emit_all [HostSIGINT]
        \<lparr>spawn_command = ''npx'', spawn_args = [''tsx''], spawn_flushOutput = flush_inherit,
           exitListener = True, sigintListener = True,
           childExitListener = True, childErrorListener = True,
           kills = [], result = Pending\<rparr>) = Pending"
    by (simp add: listener_defs)
  show ?thesis
    using C4_exit_classification [OF launch pending, of "Some 0" None]
      C4_exit_classification [OF launch pending, of "Some 123" None]
    by (simp add: number_toString_def digits.simps digit_def)
qed

subsection \<open>Forwarding the host's exit and interrupt\<close>

text \<open>Once both listeners of the host are gone, no event makes this code call \<^verbatim>\<open>child.kill\<close>.\<close>

lemma emit_listeners_off:
  "\<not> exitListener st \<Longrightarrow> \<not> sigintListener st \<Longrightarrow>
   kills (emit e st) = kills st \<and> \<not> exitListener (emit e st) \<and> \<not> sigintListener (emit e st)"
  by (cases e) (auto simp: child_exit_listener_def resolve_def reject_def Let_def)

lemma emit_all_listeners_off:
  "\<not> exitListener st \<Longrightarrow> \<not> sigintListener st \<Longrightarrow>
   kills (emit_all es st) = kills st
   \<and> \<not> exitListener (emit_all es st) \<and> \<not> sigintListener (emit_all es st)"
proof (induction es arbitrary: st)
  case Nil
  then show ?case by simp
next
  case (Cons e es)
  then show ?case using emit_listeners_off [of st e] by simp
qed

text \<open>The exit listener removes both listeners of the host, calls no \<^verbatim>\<open>child.kill\<close> and settles the promise.\<close>

lemma emit_ChildExit_listening:
  "childExitListener st \<Longrightarrow>
   \<not> exitListener (emit (ChildExit c sg) st) \<and> \<not> sigintListener (emit (ChildExit c sg) st)
   \<and> kills (emit (ChildExit c sg) st) = kills st
   \<and> result (emit (ChildExit c sg) st) \<noteq> Pending"
  by (auto simp: child_exit_listener_def resolve_def reject_def Let_def)

text \<open>
  Before the child's exit: each listener of the host stays until its event comes, and
  calls \<^verbatim>\<open>child.kill\<close> once when it comes.
\<close>

lemma emit_all_before_exit:
  "\<forall>e \<in> set es. \<not> is_ChildExit e \<Longrightarrow>
   childExitListener (emit_all es st) = childExitListener st
   \<and> exitListener (emit_all es st) = (exitListener st \<and> HostExit \<notin> set es)
   \<and> sigintListener (emit_all es st) = (sigintListener st \<and> HostSIGINT \<notin> set es)
   \<and> count_list (kills (emit_all es st)) None =
       count_list (kills st) None + (if exitListener st \<and> HostExit \<in> set es then 1 else 0)
   \<and> count_list (kills (emit_all es st)) (Some ''SIGINT'') =
       count_list (kills st) (Some ''SIGINT'') +
       (if sigintListener st \<and> HostSIGINT \<in> set es then 1 else 0)
   \<and> set (kills (emit_all es st)) \<subseteq> set (kills st) \<union> {None, Some ''SIGINT''}"
proof (induction es arbitrary: st)
  case Nil
  then show ?case by auto
next
  case (Cons e es)
  then have IH:
    "childExitListener (emit_all es (emit e st)) = childExitListener (emit e st)
     \<and> exitListener (emit_all es (emit e st)) = (exitListener (emit e st) \<and> HostExit \<notin> set es)
     \<and> sigintListener (emit_all es (emit e st)) =
         (sigintListener (emit e st) \<and> HostSIGINT \<notin> set es)
     \<and> count_list (kills (emit_all es (emit e st))) None =
         count_list (kills (emit e st)) None +
         (if exitListener (emit e st) \<and> HostExit \<in> set es then 1 else 0)
     \<and> count_list (kills (emit_all es (emit e st))) (Some ''SIGINT'') =
         count_list (kills (emit e st)) (Some ''SIGINT'') +
         (if sigintListener (emit e st) \<and> HostSIGINT \<in> set es then 1 else 0)
     \<and> set (kills (emit_all es (emit e st))) \<subseteq> set (kills (emit e st)) \<union> {None, Some ''SIGINT''}"
    by simp
  from Cons.prems have no_exit: "\<not> is_ChildExit e" by simp
  show ?case
  proof (cases e)
    case HostExit
    then show ?thesis using IH by (auto simp: killChild_def)
  next
    case HostSIGINT
    then show ?thesis using IH by (auto simp: interruptChild_def)
  next
    case (ChildExit c sg)
    then show ?thesis using no_exit by simp
  next
    case (ChildErrorEvent err)
    then show ?thesis using IH by (auto simp: reject_def)
  qed
qed

lemma before_exit_no_exit: "\<forall>e \<in> set (before_exit es). \<not> is_ChildExit e"
  by (auto simp: before_exit_def dest: set_takeWhileD)

lemma before_exit_split:
  "es = before_exit es \<or> (\<exists>c sg rest. es = before_exit es @ ChildExit c sg # rest)"
proof (cases "dropWhile (\<lambda>e. \<not> is_ChildExit e) es")
  case Nil
  then have "\<forall>e \<in> set es. \<not> is_ChildExit e" by (simp add: dropWhile_eq_Nil_conv)
  then have "before_exit es = es" by (simp add: before_exit_def takeWhile_eq_all_conv)
  then show ?thesis by metis
next
  case (Cons e rest)
  then have "is_ChildExit e" using hd_dropWhile [of "\<lambda>e. \<not> is_ChildExit e" es] by auto
  then obtain c sg where "e = ChildExit c sg" by (cases e) auto
  then have "es = before_exit es @ ChildExit c sg # rest"
    using Cons takeWhile_dropWhile_id [of "\<lambda>e. \<not> is_ChildExit e" es]
    by (simp add: before_exit_def)
  then show ?thesis by blast
qed

text \<open>
  Claim C7. For every sequence of events \<open>es\<close> after a call of \<^verbatim>\<open>spawn\<close>:
  \<^item> each of the two triggers is forwarded exactly once: \<^verbatim>\<open>child.kill("SIGINT")\<close> is
    called once when the host is interrupted before the child's exit, \<^verbatim>\<open>child.kill()\<close>
    is called once when the host exits before the child's exit, and the listeners call
    nothing else (a trigger that comes again is not forwarded again);
  \<^item> while the promise is pending, the child's exit has not come, so the forwarding is in
    place;
  \<^item> when the child's exit comes, both listeners of the host are removed, and they stay
    removed;
  \<^item> the events from the child's exit on add no call of \<^verbatim>\<open>child.kill\<close>: a child that
    has exited is never signalled by the listeners.
\<close>

theorem C7_forwarding:
  assumes "spawn command' args' outputMode child = Inr (sti, wi)"
  shows "count_list (kills (emit_all es sti)) (Some ''SIGINT'') =
           (if HostSIGINT \<in> set (before_exit es) then 1 else 0)
       \<and> count_list (kills (emit_all es sti)) None =
           (if HostExit \<in> set (before_exit es) then 1 else 0)
       \<and> set (kills (emit_all es sti)) \<subseteq> {None, Some ''SIGINT''}
       \<and> (result (emit_all es sti) = Pending \<longrightarrow> before_exit es = es)
       \<and> ((\<exists>e \<in> set es. is_ChildExit e) \<longrightarrow>
            \<not> exitListener (emit_all es sti) \<and> \<not> sigintListener (emit_all es sti))
       \<and> kills (emit_all es sti) = kills (emit_all (before_exit es) sti)"
proof -
  let ?pre = "before_exit es"
  have init: "childExitListener sti" "exitListener sti" "sigintListener sti" "kills sti = []"
    using spawn_initial [OF assms] by simp_all
  note pre = emit_all_before_exit [OF before_exit_no_exit, of es sti]
  have counts:
    "count_list (kills (emit_all ?pre sti)) (Some ''SIGINT'') =
       (if HostSIGINT \<in> set ?pre then 1 else 0)"
    "count_list (kills (emit_all ?pre sti)) None = (if HostExit \<in> set ?pre then 1 else 0)"
    "set (kills (emit_all ?pre sti)) \<subseteq> {None, Some ''SIGINT''}"
    "childExitListener (emit_all ?pre sti)"
    using pre init by simp_all
  consider "es = ?pre" | c sg rest where "es = ?pre @ ChildExit c sg # rest"
    using before_exit_split [of es] by blast
  then have rest:
    "kills (emit_all es sti) = kills (emit_all ?pre sti)
     \<and> (result (emit_all es sti) = Pending \<longrightarrow> ?pre = es)
     \<and> ((\<exists>e \<in> set es. is_ChildExit e) \<longrightarrow>
          \<not> exitListener (emit_all es sti) \<and> \<not> sigintListener (emit_all es sti))"
  proof cases
    case 1
    then show ?thesis using before_exit_no_exit [of es] by auto
  next
    case 2
    let ?st1 = "emit (ChildExit c sg) (emit_all ?pre sti)"
    have whole: "emit_all es sti = emit_all rest ?st1"
      by (subst 2) (simp add: emit_all_append)
    have exit: "\<not> exitListener ?st1 \<and> \<not> sigintListener ?st1
                \<and> kills ?st1 = kills (emit_all ?pre sti) \<and> result ?st1 \<noteq> Pending"
      using emit_ChildExit_listening [OF counts(4)] by simp
    then have "result (emit_all es sti) \<noteq> Pending"
      using emit_all_settled [of ?st1 rest] whole by simp
    then show ?thesis
      using emit_all_listeners_off [of ?st1 rest] whole exit by simp
  qed
  show ?thesis using counts(1,2,3) rest by simp
qed

theorem C7_forwarding_witness:
  "count_list (kills (emit_all
      [HostSIGINT, HostSIGINT, ChildExit None (Some ''SIGINT''), HostSIGINT, HostExit]
      \<lparr>spawn_command = ''sleep'', spawn_args = [''10''], spawn_flushOutput = flush_inherit,
         exitListener = True, sigintListener = True,
         childExitListener = True, childErrorListener = True,
         kills = [], result = Pending\<rparr>)) (Some ''SIGINT'') = 1
   \<and> count_list (kills (emit_all
      [HostSIGINT, HostSIGINT, ChildExit None (Some ''SIGINT''), HostSIGINT, HostExit]
      \<lparr>spawn_command = ''sleep'', spawn_args = [''10''], spawn_flushOutput = flush_inherit,
         exitListener = True, sigintListener = True,
         childExitListener = True, childErrorListener = True,
         kills = [], result = Pending\<rparr>)) None = 0
   \<and> \<not> exitListener (emit_all
      [HostSIGINT, HostSIGINT, ChildExit None (Some ''SIGINT''), HostSIGINT, HostExit]
      \<lparr>spawn_command = ''sleep'', spawn_args = [''10''], spawn_flushOutput = flush_inherit,
         exitListener = True, sigintListener = True,
         childExitListener = True, childErrorListener = True,
         kills = [], result = Pending\<rparr>)
   \<and> \<not> sigintListener (emit_all
      [HostSIGINT, HostSIGINT, ChildExit None (Some ''SIGINT''), HostSIGINT, HostExit]
      \<lparr>spawn_command = ''sleep'', spawn_args = [''10''], spawn_flushOutput = flush_inherit,
         exitListener = True, sigintListener = True,
         childExitListener = True, childErrorListener = True,
         kills = [], result = Pending\<rparr>)"
proof -
  have launch:
    "spawn ''sleep'' [''10''] None \<lparr>stdin = True, stdout = True, stderr = True\<rparr> =
       Inr (\<lparr>spawn_command = ''sleep'', spawn_args = [''10''],
              spawn_flushOutput = flush_inherit,
              exitListener = True, sigintListener = True,
              childExitListener = True, childErrorListener = True,
              kills = [], result = Pending\<rparr>,
            \<lparr>arrived = [], multi = None\<rparr>)"
    by (simp add: spawn_def transformStdio_def)
  have before:
    "before_exit [HostSIGINT, HostSIGINT, ChildExit None (Some ''SIGINT''), HostSIGINT, HostExit]
       = [HostSIGINT, HostSIGINT]"
    by (simp add: before_exit_def)
  note run = C7_forwarding [OF launch,
      of "[HostSIGINT, HostSIGINT, ChildExit None (Some ''SIGINT''), HostSIGINT, HostExit]",
      unfolded before]
  show ?thesis
    using run [THEN conjunct1] run [THEN conjunct2, THEN conjunct1]
      run [THEN conjunct2, THEN conjunct2, THEN conjunct2, THEN conjunct2, THEN conjunct1]
    by (simp del: emit_all.simps)
qed

end
